theory Spec2Isabelle
  imports Complex_Main "HOL-Library.Word" "HOL-Library.Log_Nat"
begin

unbundle bit_operations_syntax

section \<open>Numbers and typed arrays\<close>

text \<open>
  A JavaScript Number is a finite value, one of the two infinities or NaN. Finite values
  are kept as exact rationals. An element of a \<^verbatim>\<open>Float32Array\<close> has a 24-bit significand and
  \<^verbatim>\<open>0x7fff\<close> has 15 bits, so the double product \<^verbatim>\<open>float32[i] * 0x7fff\<close> of the worklet has
  at most 39 significant bits and is computed without rounding: on every value a
  \<^verbatim>\<open>Float32Array\<close> can hold, the rational product below is the product the code computes.
\<close>

datatype number = Fin rat | PosInf | NegInf | NaN

type_synonym int16 = "16 word"
type_synonym byte = "8 word"

text \<open>\<^verbatim>\<open>x * 0x7fff\<close>, \<^verbatim>\<open>s > c\<close> and \<^verbatim>\<open>s < c\<close> for a finite constant \<open>c\<close>; a comparison
  with NaN is false.\<close>

fun times_const :: "number \<Rightarrow> rat \<Rightarrow> number" where
  "times_const (Fin r) c = Fin (r * c)"
| "times_const PosInf c = (if c > 0 then PosInf else if c < 0 then NegInf else NaN)"
| "times_const NegInf c = (if c > 0 then NegInf else if c < 0 then PosInf else NaN)"
| "times_const NaN c = NaN"

fun gt_const :: "number \<Rightarrow> rat \<Rightarrow> bool" where
  "gt_const (Fin r) c = (r > c)"
| "gt_const PosInf c = True"
| "gt_const NegInf c = False"
| "gt_const NaN c = False"

fun lt_const :: "number \<Rightarrow> rat \<Rightarrow> bool" where
  "lt_const (Fin r) c = (r < c)"
| "lt_const PosInf c = False"
| "lt_const NegInf c = True"
| "lt_const NaN c = False"

text \<open>ECMAScript's \<^verbatim>\<open>truncate\<close>: the integer part, rounding toward zero.\<close>

definition js_trunc :: "rat \<Rightarrow> int" where
  "js_trunc r = (if r < 0 then - \<lfloor>- r\<rfloor> else \<lfloor>r\<rfloor>)"

text \<open>Storing a Number into an \<^verbatim>\<open>Int16Array\<close> slot is ECMAScript's \<^verbatim>\<open>ToInt16\<close>: NaN and the
  infinities become 0, a finite value is truncated and then reduced modulo \<open>2^16\<close>
  (\<open>word_of_int\<close> wraps).\<close>

fun ToInt16 :: "number \<Rightarrow> int16" where
  "ToInt16 (Fin r) = word_of_int (js_trunc r)"
| "ToInt16 PosInf = 0"
| "ToInt16 NegInf = 0"
| "ToInt16 NaN = 0"

text \<open>The bytes of an \<^verbatim>\<open>Int16Array\<close>'s buffer, little-endian, and the \<^verbatim>\<open>Int16Array\<close> view of a
  byte buffer (\<^verbatim>\<open>new Int16Array(bytes.buffer)\<close>), which exists only for an even byte count.\<close>

fun buffer_of :: "int16 list \<Rightarrow> byte list" where
  "buffer_of [] = []"
| "buffer_of (w # ws) = ucast w # ucast (drop_bit 8 w) # buffer_of ws"

fun int16_view :: "byte list \<Rightarrow> int16 list option" where
  "int16_view [] = Some []"
| "int16_view [b] = None"
| "int16_view (lo # hi # bs) =
     (case int16_view bs of
        None \<Rightarrow> None
      | Some ws \<Rightarrow> Some ((ucast lo OR push_bit 8 (ucast hi)) # ws))"

section \<open>The frame encoder: \<^verbatim>\<open>InputPCMProcessor.process\<close>\<close>

text \<open>The body of the conversion loop for one sample: scale, clamp, store.\<close>

definition encode_sample :: "number \<Rightarrow> int16" where
  "encode_sample x =
     (let s = times_const x 32767;
          s = (if gt_const s 32767 then Fin 32767
               else if lt_const s (- 32768) then Fin (- 32768)
               else s)
      in ToInt16 s)"

text \<open>\<^verbatim>\<open>process(inputs)\<close>: \<open>inputs\<close> is a list of inputs, each a list of channels, each a
  \<^verbatim>\<open>Float32Array\<close>. The result is the buffer posted on the port, if any; the processor
  always returns \<^verbatim>\<open>true\<close>. A missing first input or first channel posts nothing.\<close>

fun process :: "number list list list \<Rightarrow> byte list option" where
  "process [] = None"
| "process ([] # rest) = None"
| "process ((float32 # chans) # rest) = Some (buffer_of (map encode_sample float32))"

section \<open>Decoding inbound audio: \<^verbatim>\<open>b64ToPCM\<close>\<close>

subsection \<open>Rounding to a binary floating-point format\<close>

text \<open>
  \<^verbatim>\<open>s / 0x7fff\<close> is a double division and the \<^verbatim>\<open>Float32Array\<close> store rounds the double to
  single precision. Both are IEEE 754 round-to-nearest, ties-to-even. \<open>fround p\<close> rounds
  a rational to \<open>p\<close> significant bits with an unbounded exponent; that is the IEEE result
  wherever the value is in the normal range of the format, which holds for every
  quotient \<open>s / 32767\<close> of an int16 \<open>s\<close> (0, or of magnitude between \<open>2^-15\<close> and \<open>1.0001\<close>).
\<close>

text \<open>For \<open>x > 0\<close>, the exponent \<open>e\<close> with \<open>2^e \<le> x < 2^(e+1)\<close>.\<close>

definition ilog2 :: "rat \<Rightarrow> int" where
  "ilog2 x = (if 1 \<le> x then bitlen \<lfloor>x\<rfloor> - 1 else - bitlen (\<lceil>1 / x\<rceil> - 1))"

definition round_ties_even :: "rat \<Rightarrow> int" where
  "round_ties_even y =
     (let f = \<lfloor>y\<rfloor>; d = y - of_int f
      in if d < 1 / 2 then f
         else if 1 / 2 < d then f + 1
         else if even f then f else f + 1)"

definition fround :: "nat \<Rightarrow> rat \<Rightarrow> rat" where
  "fround p x =
     (if x = 0 then 0
      else let e = ilog2 \<bar>x\<bar> - (int p - 1)
           in of_int (round_ties_even (x / 2 powi e)) * 2 powi e)"

text \<open>The callback \<^verbatim>\<open>s => s / 0x7fff\<close> of \<^verbatim>\<open>Float32Array.from\<close>, with the store into the
  \<^verbatim>\<open>Float32Array\<close>.\<close>

definition decode_sample :: "int16 \<Rightarrow> number" where
  "decode_sample s = Fin (fround 24 (fround 53 (of_int (sint s) / 32767)))"

subsection \<open>\<^verbatim>\<open>atob\<close>\<close>

text \<open>
  \<^verbatim>\<open>atob\<close> is the forgiving-base64 decode of the WHATWG Infra standard: ASCII whitespace
  is removed; if the length is then a multiple of 4, one or two trailing \<^verbatim>\<open>=\<close> are
  removed; a length of 1 modulo 4 or a character outside the base64 alphabet fails
  (\<^verbatim>\<open>InvalidCharacterError\<close>); otherwise each character gives 6 bits, and the 2 or 4 bits
  left over after the last whole byte are dropped. The result is given directly as the
  byte array that \<^verbatim>\<open>Uint8Array.from(atob(b64), c => c.charCodeAt(0))\<close> builds from it.
\<close>

definition ascii_whitespace :: "char \<Rightarrow> bool" where
  "ascii_whitespace c = (of_char c \<in> {9, 10, 12, 13, 32 :: nat})"

definition b64_index :: "char \<Rightarrow> nat option" where
  "b64_index c =
     (let n = of_char c :: nat
      in if 65 \<le> n \<and> n \<le> 90 then Some (n - 65)
         else if 97 \<le> n \<and> n \<le> 122 then Some (n - 71)
         else if 48 \<le> n \<and> n \<le> 57 then Some (n + 4)
         else if n = 43 then Some 62
         else if n = 47 then Some 63
         else None)"

definition strip_padding :: "string \<Rightarrow> string" where
  "strip_padding d =
     (if length d mod 4 = 0 then
        (if 2 \<le> length d \<and> drop (length d - 2) d = ''=='' then take (length d - 2) d
         else if 1 \<le> length d \<and> drop (length d - 1) d = ''='' then take (length d - 1) d
         else d)
      else d)"

fun decode_groups :: "nat list \<Rightarrow> byte list" where
  "decode_groups (a # b # c # d # rest) =
     (let n = a * 262144 + b * 4096 + c * 64 + d
      in of_nat (n div 65536) # of_nat (n div 256 mod 256) # of_nat (n mod 256)
         # decode_groups rest)"
| "decode_groups [a, b, c] =
     (let n = a * 4096 + b * 64 + c
      in [of_nat (n div 1024), of_nat (n div 4 mod 256)])"
| "decode_groups [a, b] = [of_nat ((a * 64 + b) div 16)]"
| "decode_groups [a] = []"
| "decode_groups [] = []"

definition atob :: "string \<Rightarrow> byte list option" where
  "atob b64 =
     (let d = strip_padding (filter (\<lambda>c. \<not> ascii_whitespace c) b64)
      in if length d mod 4 = 1 then None
         else case those (map b64_index d) of
                None \<Rightarrow> None
              | Some ixs \<Rightarrow> Some (decode_groups ixs))"

subsection \<open>\<^verbatim>\<open>b64ToPCM\<close>\<close>

datatype error =
    InvalidCharacterError  \<comment> \<open>thrown by \<^verbatim>\<open>atob\<close>\<close>
  | RangeError             \<comment> \<open>thrown by \<^verbatim>\<open>new Int16Array(buffer)\<close> on an odd byte length\<close>
  | NotSupportedError      \<comment> \<open>thrown by \<^verbatim>\<open>createBuffer\<close> on a length or sample rate of 0\<close>
  | DeviceUnavailable      \<comment> \<open>the rejection of \<^verbatim>\<open>getUserMedia\<close>: permission denied or no
                               input device\<close>

record chunk =
  float32 :: "number list"
  sampleRate :: nat

definition b64ToPCM :: "string \<Rightarrow> error + chunk" where
  "b64ToPCM b64 =
     (case atob b64 of
        None \<Rightarrow> Inl InvalidCharacterError
      | Some bytes \<Rightarrow>
          (case int16_view bytes of
             None \<Rightarrow> Inl RangeError
           | Some int16 \<Rightarrow> Inr \<lparr>float32 = map decode_sample int16, sampleRate = 24000\<rparr>))"

section \<open>The voice controller\<close>

text \<open>
  The controller object after its constructor has found the mic button. \<open>audioCtx\<close> holds
  the sample rate of the \<^verbatim>\<open>AudioContext\<close> once one exists; \<open>worklet\<close> says that the worklet
  node exists, with its port handler installed and the microphone connected to it. The
  effects on the outside are logged in the state: \<open>button_active\<close> is the presence of the
  class \<^verbatim>\<open>active\<close> on the button, \<open>emitted\<close> the \<^verbatim>\<open>socket.emit\<close> calls in order,
  \<open>console_calls\<close> the number of \<^verbatim>\<open>console.warn\<close> and \<^verbatim>\<open>console.error\<close> calls, \<open>getUserMedia_calls\<close> the number
  of device acquisitions attempted, and \<open>started\<close> the buffer sources started on the
  output device, each with its start time and its duration in seconds.
\<close>

datatype message = AudioChunk "byte list" | AudioCommit

record voice =
  audioCtx :: "nat option"
  worklet :: bool
  isRecording :: bool
  button_active :: bool
  emitted :: "message list"
  console_calls :: nat
  getUserMedia_calls :: nat
  started :: "(rat \<times> rat) list"

definition init :: voice where
  "init = \<lparr>audioCtx = None, worklet = False, isRecording = False, button_active = False,
            emitted = [], console_calls = 0, getUserMedia_calls = 0, started = []\<rparr>"

text \<open>What the host answers when \<^verbatim>\<open>start\<close> asks it: whether \<^verbatim>\<open>audioWorklet.addModule\<close>
  resolves and whether \<^verbatim>\<open>getUserMedia\<close> resolves. Creating and resuming the
  \<^verbatim>\<open>AudioContext\<close> are taken to succeed.\<close>

record host =
  addModule_ok :: bool
  getUserMedia_ok :: bool

text \<open>\<^verbatim>\<open>_ensureAudioPipeline\<close> and \<^verbatim>\<open>start\<close> as calls that settle before anything else
  happens: each \<^verbatim>\<open>await\<close> is answered at once. The result is the rejection of the promise,
  if any, and the state the call leaves: what was assigned before a throw stays assigned.
  Calls that are still waiting while other events are handled are modelled further down.\<close>

definition ensureAudioPipeline :: "host \<Rightarrow> voice \<Rightarrow> error option \<times> voice" where
  "ensureAudioPipeline h s =
     (if audioCtx s \<noteq> None then (None, s)
      else let s = s\<lparr>audioCtx := Some 24000\<rparr>
           in if \<not> addModule_ok h then (None, s\<lparr>console_calls := console_calls s + 1\<rparr>)
              else let s = s\<lparr>getUserMedia_calls := getUserMedia_calls s + 1\<rparr>
                   in if \<not> getUserMedia_ok h then (Some DeviceUnavailable, s)
                      else (None, s\<lparr>worklet := True\<rparr>))"

definition start :: "host \<Rightarrow> voice \<Rightarrow> error option \<times> voice" where
  "start h s =
     (if isRecording s then (None, s)
      else case ensureAudioPipeline h s of
             (Some e, s') \<Rightarrow> (Some e, s')
           | (None, s') \<Rightarrow> (None, s'\<lparr>button_active := True, isRecording := True\<rparr>))"

definition stop :: "voice \<Rightarrow> voice" where
  "stop s =
     (if \<not> isRecording s then s
      else s\<lparr>button_active := False, isRecording := False,
               emitted := emitted s @ [AudioCommit]\<rparr>)"

text \<open>\<^verbatim>\<open>toggle\<close> returns nothing: the promise of \<^verbatim>\<open>start\<close> is dropped, and with it a rejection.\<close>

definition toggle :: "host \<Rightarrow> voice \<Rightarrow> voice" where
  "toggle h s = (if isRecording s then stop s else snd (start h s))"

text \<open>The port handler installed by \<^verbatim>\<open>_ensureAudioPipeline\<close>, and one render quantum: once
  the worklet node is in the graph, the audio thread calls \<^verbatim>\<open>process\<close> and the posted
  buffer, if any, reaches the handler.\<close>

definition onmessage :: "byte list \<Rightarrow> voice \<Rightarrow> voice" where
  "onmessage data s = s\<lparr>emitted := emitted s @ [AudioChunk data]\<rparr>"

definition quantum :: "number list list list \<Rightarrow> voice \<Rightarrow> voice" where
  "quantum inputs s =
     (if worklet s then (case process inputs of None \<Rightarrow> s | Some data \<Rightarrow> onmessage data s)
      else s)"

text \<open>\<^verbatim>\<open>_playAssistant\<close> at device time \<open>now\<close> (\<^verbatim>\<open>audioCtx.currentTime\<close> when it runs).
  \<^verbatim>\<open>src.start()\<close> has no argument, so the source starts at once. A sample rate or a
  buffer length of 0 makes the \<^verbatim>\<open>AudioContext\<close> constructor or \<^verbatim>\<open>createBuffer\<close> throw.\<close>

definition playAssistant :: "rat \<Rightarrow> chunk \<Rightarrow> voice \<Rightarrow> error option \<times> voice" where
  "playAssistant now c s =
     (if audioCtx s = None \<and> sampleRate c = 0 then (Some NotSupportedError, s)
      else let s = (if audioCtx s = None then s\<lparr>audioCtx := Some (sampleRate c)\<rparr> else s)
           in if float32 c = [] \<or> sampleRate c = 0 then (Some NotSupportedError, s)
              else (None, s\<lparr>started := started s @
                     [(now, of_nat (length (float32 c)) / of_nat (sampleRate c))]\<rparr>))"

text \<open>The handler of \<^verbatim>\<open>assistant_audio\<close>: \<^verbatim>\<open>({ audio }) => this._playAssistant(b64ToPCM(audio))\<close>.\<close>

definition on_assistant_audio :: "rat \<Rightarrow> string \<Rightarrow> voice \<Rightarrow> error option \<times> voice" where
  "on_assistant_audio now audio s =
     (case b64ToPCM audio of
        Inl e \<Rightarrow> (Some e, s)
      | Inr c \<Rightarrow> playAssistant now c s)"

subsection \<open>Runs of events\<close>

text \<open>The events the controller reacts to, each \<^verbatim>\<open>start\<close> settling before the next event.
  An exception or rejection that leaves a handler is reported by the host, and the next
  event is handled in the state the failed handler left.\<close>

datatype event =
    Start host
  | Stop
  | Toggle host
  | Quantum "number list list list"
  | AssistantAudio rat string

fun step :: "event \<Rightarrow> voice \<Rightarrow> voice" where
  "step (Start h) s = snd (start h s)"
| "step Stop s = stop s"
| "step (Toggle h) s = toggle h s"
| "step (Quantum inputs) s = quantum inputs s"
| "step (AssistantAudio now audio) s = snd (on_assistant_audio now audio s)"

fun run :: "event list \<Rightarrow> voice \<Rightarrow> voice" where
  "run [] s = s"
| "run (e # es) s = run es (step e s)"

text \<open>Counters over a run: the \<^verbatim>\<open>audio_commit\<close> and \<^verbatim>\<open>audio_chunk\<close> messages in a log, and
  the steps of a run that take the session from Recording to Idle, or from Idle to
  Recording.\<close>

definition commits :: "message list \<Rightarrow> nat" where
  "commits ms = length (filter (\<lambda>m. m = AudioCommit) ms)"

definition chunks :: "message list \<Rightarrow> nat" where
  "chunks ms = length (filter (\<lambda>m. m \<noteq> AudioCommit) ms)"

fun to_idle :: "event list \<Rightarrow> voice \<Rightarrow> nat" where
  "to_idle [] s = 0"
| "to_idle (e # es) s =
     (if isRecording s \<and> \<not> isRecording (step e s) then 1 else 0) + to_idle es (step e s)"

fun to_recording :: "event list \<Rightarrow> voice \<Rightarrow> nat" where
  "to_recording [] s = 0"
| "to_recording (e # es) s =
     (if \<not> isRecording s \<and> isRecording (step e s) then 1 else 0)
       + to_recording es (step e s)"

subsection \<open>Calls of \<^verbatim>\<open>start\<close> in flight\<close>

text \<open>
  \<^verbatim>\<open>start\<close> is \<^verbatim>\<open>async\<close> and \<^verbatim>\<open>toggle\<close> does not wait for it, so other events are handled
  while a call waits at an \<^verbatim>\<open>await\<close>. A call in flight is the \<^verbatim>\<open>await\<close> it waits at, with
  the answers the host will give it:
  \<^item> \<open>AwaitModule\<close>: inside \<^verbatim>\<open>_ensureAudioPipeline\<close>, at \<^verbatim>\<open>await addModule(...)\<close>;
  \<^item> \<open>AwaitDevice\<close>: inside \<^verbatim>\<open>_ensureAudioPipeline\<close>, at \<^verbatim>\<open>await getUserMedia(...)\<close>;
  \<^item> \<open>AwaitEnsure\<close>: in \<^verbatim>\<open>start\<close>, at \<^verbatim>\<open>await this._ensureAudioPipeline()\<close>, the helper having
    returned;
  \<^item> \<open>AwaitResume\<close>: in \<^verbatim>\<open>start\<close>, at \<^verbatim>\<open>await this.audioCtx.resume()\<close>.
  The controller is then its state together with the calls in flight.
\<close>

datatype phase = AwaitModule | AwaitDevice | AwaitEnsure | AwaitResume

type_synonym call = "phase \<times> host"

type_synonym loop = "voice \<times> call list"

text \<open>The synchronous part of a call of \<^verbatim>\<open>start\<close>, up to its first \<^verbatim>\<open>await\<close>: the guard on
  \<^verbatim>\<open>isRecording\<close>, the guard of the helper on \<^verbatim>\<open>audioCtx\<close>, and the creation of the context.\<close>

definition start_call :: "host \<Rightarrow> loop \<Rightarrow> loop" where
  "start_call h st =
     (let s = fst st; ps = snd st
      in if isRecording s then (s, ps)
         else if audioCtx s \<noteq> None then (s, ps @ [(AwaitEnsure, h)])
         else (s\<lparr>audioCtx := Some 24000\<rparr>, ps @ [(AwaitModule, h)]))"

text \<open>A call resumes after its \<^verbatim>\<open>await\<close> and runs to its next \<^verbatim>\<open>await\<close>, to its end or to a
  throw: the rejection if any, the new state, and the call if it is still in flight.\<close>

fun resume_call :: "call \<Rightarrow> voice \<Rightarrow> error option \<times> voice \<times> call option" where
  "resume_call (AwaitModule, h) s =
     (if \<not> addModule_ok h
      then (None, s\<lparr>console_calls := console_calls s + 1\<rparr>, Some (AwaitEnsure, h))
      else (None, s\<lparr>getUserMedia_calls := getUserMedia_calls s + 1\<rparr>, Some (AwaitDevice, h)))"
| "resume_call (AwaitDevice, h) s =
     (if \<not> getUserMedia_ok h then (Some DeviceUnavailable, s, None)
      else (None, s\<lparr>worklet := True\<rparr>, Some (AwaitEnsure, h)))"
| "resume_call (AwaitEnsure, h) s = (None, s, Some (AwaitResume, h))"
| "resume_call (AwaitResume, h) s =
     (None, s\<lparr>button_active := True, isRecording := True\<rparr>, None)"

text \<open>The \<open>i\<close>-th call in flight resumes; nothing happens if there is no such call.\<close>

definition settle :: "nat \<Rightarrow> loop \<Rightarrow> loop" where
  "settle i st =
     (let s = fst st; ps = snd st
      in if i < length ps
         then (case resume_call (ps ! i) s of
                 (err, s', rest) \<Rightarrow>
                   (s', take i ps @ (case rest of None \<Rightarrow> [] | Some c \<Rightarrow> [c])
                          @ drop (Suc i) ps))
         else (s, ps))"

datatype tick =
    CallStart host
  | CallStop
  | CallToggle host
  | Settle nat
  | RenderQuantum "number list list list"
  | Inbound rat string

fun astep :: "tick \<Rightarrow> loop \<Rightarrow> loop" where
  "astep (CallStart h) st = start_call h st"
| "astep CallStop st = (stop (fst st), snd st)"
| "astep (CallToggle h) st =
     (if isRecording (fst st) then (stop (fst st), snd st) else start_call h st)"
| "astep (Settle i) st = settle i st"
| "astep (RenderQuantum inputs) st = (quantum inputs (fst st), snd st)"
| "astep (Inbound now audio) st = (snd (on_assistant_audio now audio (fst st)), snd st)"

fun arun :: "tick list \<Rightarrow> loop \<Rightarrow> loop" where
  "arun [] st = st"
| "arun (e # es) st = arun es (astep e st)"

fun a_to_idle :: "tick list \<Rightarrow> loop \<Rightarrow> nat" where
  "a_to_idle [] st = 0"
| "a_to_idle (e # es) st =
     (if isRecording (fst st) \<and> \<not> isRecording (fst (astep e st)) then 1 else 0)
       + a_to_idle es (astep e st)"

fun a_to_recording :: "tick list \<Rightarrow> loop \<Rightarrow> nat" where
  "a_to_recording [] st = 0"
| "a_to_recording (e # es) st =
     (if \<not> isRecording (fst st) \<and> isRecording (fst (astep e st)) then 1 else 0)
       + a_to_recording es (astep e st)"

text \<open>An event of a settled run as ticks: a call of \<^verbatim>\<open>start\<close> followed at once by the at most
  four resumptions it needs.\<close>

fun settled :: "event \<Rightarrow> tick list" where
  "settled (Start h) = [CallStart h, Settle 0, Settle 0, Settle 0, Settle 0]"
| "settled Stop = [CallStop]"
| "settled (Toggle h) = [CallToggle h, Settle 0, Settle 0, Settle 0, Settle 0]"
| "settled (Quantum inputs) = [RenderQuantum inputs]"
| "settled (AssistantAudio now audio) = [Inbound now audio]"

text \<open>Two measures on the calls in flight: how many will still ask for the device (they
  wait for a module load that succeeds), and whether some call has the helper behind it
  and so will set the session Recording.\<close>

definition acquiring :: "call list \<Rightarrow> nat" where
  "acquiring ps = length (filter (\<lambda>c. fst c = AwaitModule \<and> addModule_ok (snd c)) ps)"

definition past_helper :: "call list \<Rightarrow> bool" where
  "past_helper ps = list_ex (\<lambda>c. fst c = AwaitEnsure \<or> fst c = AwaitResume) ps"

section \<open>Properties of the frame encoder\<close>

lemma length_buffer_of: "length (buffer_of ws) = 2 * length ws"
  by (induction ws) simp_all

lemma sint_word_of_int_16:
  "- 32768 \<le> n \<Longrightarrow> n \<le> 32767 \<Longrightarrow> sint (word_of_int n :: int16) = n"
  by (simp add: sint_sbintrunc' signed_take_bit_int_eq_self)

lemma int16_view_buffer_of: "int16_view (buffer_of ws) = Some ws"
proof (induction ws)
  case Nil
  show ?case by simp
next
  case (Cons w ws)
  have "ucast (ucast w :: byte) OR push_bit 8 (ucast (ucast (drop_bit 8 w) :: byte)) = w"
    by (rule bit_word_eqI) (auto simp: bit_simps)
  with Cons show ?case by simp
qed

lemma js_trunc_neg: "c < 0 \<Longrightarrow> js_trunc c = - \<lfloor>- c\<rfloor>"
  by (simp add: js_trunc_def)

lemma js_trunc_numeral [simp]: "js_trunc (numeral k) = numeral k"
  by (simp add: js_trunc_def)

lemma js_trunc_neg_numeral [simp]: "js_trunc (- numeral k) = - numeral k"
  by (simp add: js_trunc_def)

lemma js_trunc_zero [simp]: "js_trunc 0 = 0"
  by (simp add: js_trunc_def)

lemma js_trunc_of_int [simp]: "js_trunc (of_int n) = n"
  by (simp add: js_trunc_def)

lemma js_trunc_range:
  assumes "- 32768 \<le> c" "c \<le> 32767"
  shows "- 32768 \<le> js_trunc c \<and> js_trunc c \<le> 32767"
proof (cases "c < 0")
  case True
  have "\<lfloor>- c\<rfloor> \<le> 32768" using assms by (simp add: floor_le_iff)
  moreover have "0 \<le> \<lfloor>- c\<rfloor>" using True by simp
  ultimately show ?thesis unfolding js_trunc_neg [OF True] by linarith
next
  case False
  have "\<lfloor>c\<rfloor> \<le> 32767" using assms by (simp add: floor_le_iff)
  moreover have "0 \<le> \<lfloor>c\<rfloor>" using False by simp
  ultimately show ?thesis using False unfolding js_trunc_def by simp
qed

lemma js_trunc_abs: "\<bar>of_int (js_trunc c)\<bar> \<le> \<bar>c\<bar>"
proof (cases "c < 0")
  case True
  have "of_int \<lfloor>- c\<rfloor> \<le> - c" by (rule of_int_floor_le)
  moreover have "0 \<le> \<lfloor>- c\<rfloor>" using True by simp
  ultimately show ?thesis unfolding js_trunc_neg [OF True] using True by simp
next
  case False
  have "of_int \<lfloor>c\<rfloor> \<le> c" by (rule of_int_floor_le)
  moreover have "0 \<le> \<lfloor>c\<rfloor>" using False by simp
  ultimately show ?thesis using False unfolding js_trunc_def by simp
qed

lemma js_trunc_near: "\<bar>c - of_int (js_trunc c)\<bar> < 1"
proof (cases "c < 0")
  case True
  have "of_int \<lfloor>- c\<rfloor> \<le> - c" "- c < of_int \<lfloor>- c\<rfloor> + 1" by linarith+
  then show ?thesis unfolding js_trunc_neg [OF True] of_int_minus by linarith
next
  case False
  have "of_int \<lfloor>c\<rfloor> \<le> c" "c < of_int \<lfloor>c\<rfloor> + 1" by linarith+
  then show ?thesis using False unfolding js_trunc_def by simp
qed

lemma encode_sample_Fin:
  "encode_sample (Fin x) = word_of_int (js_trunc (max (- 32768) (min 32767 (x * 32767))))"
  by (simp add: encode_sample_def Let_def max_def min_def)

lemma sint_encode_sample_Fin:
  "sint (encode_sample (Fin x)) = js_trunc (max (- 32768) (min 32767 (x * 32767)))"
  unfolding encode_sample_Fin
  by (rule sint_word_of_int_16)
     (use js_trunc_range [of "max (- 32768) (min 32767 (x * 32767))"] in auto)

lemma sint_encode_sample:
  "sint (encode_sample y) =
     (case y of
        Fin x \<Rightarrow> js_trunc (max (- 32768) (min 32767 (x * 32767)))
      | PosInf \<Rightarrow> 32767
      | NegInf \<Rightarrow> - 32768
      | NaN \<Rightarrow> 0)"
  by (cases y) (simp_all add: sint_encode_sample_Fin, simp_all add: encode_sample_def)

text \<open>Without the clamp the store would wrap: \<open>1.5 * 32767 = 49150.5\<close> truncates to 49150,
  which is \<open>-16386\<close> as an int16.\<close>

lemma unclamped_store_wraps: "sint (ToInt16 (times_const (Fin (3 / 2)) 32767)) = - 16386"
  by code_simp

text \<open>
  Claim C4. For every quantum that has a first channel, \<^verbatim>\<open>process\<close> posts a buffer, of two
  bytes per input sample; read as int16, it has one sample per input sample, and each is
  the input scaled by 32767, clamped to \<open>[-32768, 32767]\<close> and truncated to an integer
  (an infinity is stored as the bound it is clamped to, NaN as 0). In particular 1.5
  encodes to 32767 and -1.5 to -32768: an out-of-range input does not wrap around.
\<close>

theorem process_encodes_quantum:
  "(\<exists>buf pcm. process ((samples # chans) # rest) = Some buf
      \<and> length buf = 2 * length samples
      \<and> int16_view buf = Some pcm \<and> length pcm = length samples
      \<and> (\<forall>i < length samples.
            sint (pcm ! i) =
              (case samples ! i of
                 Fin x \<Rightarrow> js_trunc (max (- 32768) (min 32767 (x * 32767)))
               | PosInf \<Rightarrow> 32767
               | NegInf \<Rightarrow> - 32768
               | NaN \<Rightarrow> 0)))
   \<and> sint (encode_sample (Fin (3 / 2))) = 32767
   \<and> sint (encode_sample (Fin (- 3 / 2))) = - 32768"
proof -
  define pcm where "pcm = map encode_sample samples"
  have post: "process ((samples # chans) # rest) = Some (buffer_of pcm)"
    by (simp add: pcm_def)
  have len: "length (buffer_of pcm) = 2 * length samples"
    by (simp add: pcm_def length_buffer_of)
  have view: "int16_view (buffer_of pcm) = Some pcm"
    by (rule int16_view_buffer_of)
  have n: "length pcm = length samples"
    by (simp add: pcm_def)
  have each: "\<forall>i < length samples.
      sint (pcm ! i) =
        (case samples ! i of
           Fin x \<Rightarrow> js_trunc (max (- 32768) (min 32767 (x * 32767)))
         | PosInf \<Rightarrow> 32767
         | NegInf \<Rightarrow> - 32768
         | NaN \<Rightarrow> 0)"
    by (simp add: pcm_def sint_encode_sample)
  have hi: "sint (encode_sample (Fin (3 / 2))) = 32767"
    by (simp add: sint_encode_sample_Fin)
  have lo: "sint (encode_sample (Fin (- 3 / 2))) = - 32768"
    by (simp add: sint_encode_sample_Fin)
  from post len view n each hi lo show ?thesis by blast
qed

theorem process_encodes_quantum_witness:
  "process [[[Fin (3 / 2), Fin (- 3 / 2), Fin (1 / 2), NaN]]]
     = Some [255, 127, 0, 128, 255, 63, 0, 0]
   \<and> length [255, 127, 0, 128, 255, 63, 0, 0 :: byte] = 2 * 4
   \<and> int16_view [255, 127, 0, 128, 255, 63, 0, 0] = Some [32767, - 32768, 16383, 0]"
proof -
  have run: "process (([Fin (3 / 2), Fin (- 3 / 2), Fin (1 / 2), NaN] # []) # [])
               = Some [255, 127, 0, 128, 255, 63, 0, 0]"
    by code_simp
  from process_encodes_quantum [of "[Fin (3 / 2), Fin (- 3 / 2), Fin (1 / 2), NaN]" "[]" "[]"]
  obtain buf pcm where
    b: "process (([Fin (3 / 2), Fin (- 3 / 2), Fin (1 / 2), NaN] # []) # []) = Some buf"
    and l: "length buf = 2 * length [Fin (3 / 2), Fin (- 3 / 2), Fin (1 / 2), NaN]"
    and v: "int16_view buf = Some pcm"
    and e: "\<forall>i < length [Fin (3 / 2), Fin (- 3 / 2), Fin (1 / 2), NaN].
          sint (pcm ! i) =
            (case [Fin (3 / 2), Fin (- 3 / 2), Fin (1 / 2), NaN] ! i of
               Fin x \<Rightarrow> js_trunc (max (- 32768) (min 32767 (x * 32767)))
             | PosInf \<Rightarrow> 32767
             | NegInf \<Rightarrow> - 32768
             | NaN \<Rightarrow> 0)"
    by blast
  from b run have buf: "buf = [255, 127, 0, 128, 255, 63, 0, 0]" by simp
  have view: "int16_view [255, 127, 0, 128, 255, 63, 0, 0] = Some [32767, - 32768, 16383, 0]"
    by code_simp
  from l buf have "length [255, 127, 0, 128, 255, 63, 0, 0 :: byte] = 2 * 4" by simp
  with run view show ?thesis by simp
qed

text \<open>
  Claim C10. The rounding rule of the encoder is truncation toward zero: for every finite
  input \<open>x\<close>, with \<open>c\<close> the scaled and clamped value, the stored int16 is the integer \<open>n\<close>
  obtained by dropping the fractional part of \<open>c\<close>: it is no larger than \<open>c\<close> in magnitude
  and less than 1 away from it. So 0.5 encodes to 16383 and -0.5 to -16383.
\<close>

theorem encode_sample_truncates:
  "(let c = max (- 32768) (min 32767 (x * 32767));
        n = sint (encode_sample (Fin x))
    in n = (if c < 0 then - \<lfloor>- c\<rfloor> else \<lfloor>c\<rfloor>)
       \<and> \<bar>of_int n\<bar> \<le> \<bar>c\<bar> \<and> \<bar>c - of_int n\<bar> < 1)
   \<and> sint (encode_sample (Fin (1 / 2))) = 16383
   \<and> sint (encode_sample (Fin (- 1 / 2))) = - 16383"
proof -
  define c where "c = max (- 32768) (min 32767 (x * 32767))"
  have n: "sint (encode_sample (Fin x)) = js_trunc c"
    by (simp add: c_def sint_encode_sample_Fin)
  have "js_trunc c = (if c < 0 then - \<lfloor>- c\<rfloor> else \<lfloor>c\<rfloor>)"
    by (simp add: js_trunc_def)
  moreover have "\<bar>of_int (js_trunc c)\<bar> \<le> \<bar>c\<bar>" by (rule js_trunc_abs)
  moreover have "\<bar>c - of_int (js_trunc c)\<bar> < 1" by (rule js_trunc_near)
  moreover have "sint (encode_sample (Fin (1 / 2))) = 16383" by code_simp
  moreover have "sint (encode_sample (Fin (- 1 / 2))) = - 16383" by code_simp
  ultimately show ?thesis unfolding Let_def n c_def [symmetric] by simp
qed

section \<open>Properties of the capture session\<close>

lemma commits_append [simp]: "commits (xs @ ys) = commits xs + commits ys"
  by (simp add: commits_def)

lemma commits_simps [simp]:
  "commits [] = 0" "commits [AudioCommit] = 1" "commits [AudioChunk d] = 0"
  by (simp_all add: commits_def)

lemma ensureAudioPipeline_keeps:
  "isRecording (snd (ensureAudioPipeline h s)) = isRecording s"
  "button_active (snd (ensureAudioPipeline h s)) = button_active s"
  "emitted (snd (ensureAudioPipeline h s)) = emitted s"
  "started (snd (ensureAudioPipeline h s)) = started s"
  by (simp_all add: ensureAudioPipeline_def Let_def)

lemma start_emitted [simp]: "emitted (snd (start h s)) = emitted s"
  using ensureAudioPipeline_keeps(3) [of h s]
  by (cases "ensureAudioPipeline h s") (auto simp: start_def split: option.splits)

lemma stop_emitted:
  "emitted (stop s) = (if isRecording s then emitted s @ [AudioCommit] else emitted s)"
  by (simp add: stop_def)

lemma stop_isRecording [simp]: "isRecording (stop s) = False"
  by (simp add: stop_def)

lemma quantum_keeps [simp]:
  "isRecording (quantum q s) = isRecording s"
  "button_active (quantum q s) = button_active s"
  "commits (emitted (quantum q s)) = commits (emitted s)"
  by (simp_all add: quantum_def onmessage_def split: option.splits)

lemma playAssistant_keeps [simp]:
  "isRecording (snd (playAssistant t c s)) = isRecording s"
  "button_active (snd (playAssistant t c s)) = button_active s"
  "emitted (snd (playAssistant t c s)) = emitted s"
  "worklet (snd (playAssistant t c s)) = worklet s"
  "getUserMedia_calls (snd (playAssistant t c s)) = getUserMedia_calls s"
  by (simp_all add: playAssistant_def Let_def)

lemma on_assistant_audio_keeps [simp]:
  "isRecording (snd (on_assistant_audio t a s)) = isRecording s"
  "button_active (snd (on_assistant_audio t a s)) = button_active s"
  "emitted (snd (on_assistant_audio t a s)) = emitted s"
  "worklet (snd (on_assistant_audio t a s)) = worklet s"
  "getUserMedia_calls (snd (on_assistant_audio t a s)) = getUserMedia_calls s"
  by (simp_all add: on_assistant_audio_def split: sum.splits)

lemma start_rec_mono: "isRecording s \<Longrightarrow> isRecording (snd (start h s))"
  by (simp add: start_def)

lemma step_commits:
  "commits (emitted (step e s)) =
     commits (emitted s) + (if isRecording s \<and> \<not> isRecording (step e s) then 1 else 0)"
proof (cases e)
  case (Start h)
  then show ?thesis by (simp add: start_rec_mono)
next
  case Stop
  then show ?thesis by (simp add: stop_emitted)
next
  case (Toggle h)
  then show ?thesis by (simp add: toggle_def stop_emitted)
next
  case (Quantum q)
  then show ?thesis by simp
next
  case (AssistantAudio t a)
  then show ?thesis by simp
qed

lemma run_commits: "commits (emitted (run es s)) = commits (emitted s) + to_idle es s"
  by (induction es arbitrary: s) (simp_all add: step_commits)

lemma to_idle_le_to_recording:
  "to_idle es s \<le> to_recording es s + (if isRecording s then 1 else 0)"
proof (induction es arbitrary: s)
  case Nil
  show ?case by simp
next
  case (Cons e es)
  from Cons [of "step e s"] show ?case by (auto split: if_splits)
qed

lemma start_call_keeps [simp]:
  "isRecording (fst (start_call h st)) = isRecording (fst st)"
  "emitted (fst (start_call h st)) = emitted (fst st)"
  "getUserMedia_calls (fst (start_call h st)) = getUserMedia_calls (fst st)"
  by (simp_all add: start_call_def Let_def)

lemma resume_call_keeps:
  "emitted (fst (snd (resume_call c s))) = emitted s"
  "isRecording s \<Longrightarrow> isRecording (fst (snd (resume_call c s)))"
  "audioCtx (fst (snd (resume_call c s))) = audioCtx s"
  by (cases c; cases "fst c"; simp)+

lemma fst_settle:
  "fst (settle i st) =
     (if i < length (snd st) then fst (snd (resume_call (snd st ! i) (fst st))) else fst st)"
  by (simp add: settle_def Let_def split: prod.splits)

lemma settle_keeps [simp]:
  "emitted (fst (settle i st)) = emitted (fst st)"
  "isRecording (fst st) \<Longrightarrow> isRecording (fst (settle i st))"
  "audioCtx (fst (settle i st)) = audioCtx (fst st)"
  by (simp_all add: fst_settle resume_call_keeps)

lemma astep_commits:
  "commits (emitted (fst (astep e st))) =
     commits (emitted (fst st))
       + (if isRecording (fst st) \<and> \<not> isRecording (fst (astep e st)) then 1 else 0)"
  by (cases e) (simp_all add: stop_emitted)

lemma arun_commits:
  "commits (emitted (fst (arun es st))) = commits (emitted (fst st)) + a_to_idle es st"
  by (induction es arbitrary: st) (simp_all add: astep_commits)

lemma a_to_idle_le_a_to_recording:
  "a_to_idle es st \<le> a_to_recording es st + (if isRecording (fst st) then 1 else 0)"
proof (induction es arbitrary: st)
  case Nil
  show ?case by simp
next
  case (Cons e es)
  from Cons [of "astep e st"] show ?case by (auto split: if_splits)
qed

lemma arun_append: "arun (es @ fs) st = arun fs (arun es st)"
  by (induction es arbitrary: st) simp_all

lemma settle_no_call [simp]: "settle i (s, []) = (s, [])"
  by (simp add: settle_def)

lemma settle_head:
  "settle 0 (s, [c]) =
     (case resume_call c s of (err, s', rest) \<Rightarrow>
        (s', case rest of None \<Rightarrow> [] | Some c' \<Rightarrow> [c']))"
  by (simp add: settle_def split: prod.splits option.splits)

lemma start_settles:
  "arun [CallStart h, Settle 0, Settle 0, Settle 0, Settle 0] (s, []) = (snd (start h s), [])"
  by (simp add: start_call_def start_def ensureAudioPipeline_def settle_head Let_def)

lemma settled_step: "arun (settled e) (s, []) = (step e s, [])"
proof (cases e)
  case (Start h)
  then show ?thesis using start_settles [of h s] by simp
next
  case (Toggle h)
  show ?thesis
  proof (cases "isRecording s")
    case True
    with Toggle show ?thesis by (simp add: toggle_def)
  next
    case False
    with Toggle start_settles [of h s] show ?thesis by (simp add: toggle_def)
  qed
qed simp_all

lemma settled_run: "arun (concat (map settled es)) (s, []) = (run es s, [])"
  by (induction es arbitrary: s) (simp_all add: arun_append settled_step)
lemma snd_settle:
  "snd (settle i st) =
     (if i < length (snd st)
      then take i (snd st)
           @ (case snd (snd (resume_call (snd st ! i) (fst st))) of None \<Rightarrow> [] | Some c \<Rightarrow> [c])
           @ drop (Suc i) (snd st)
      else snd st)"
  by (simp add: settle_def Let_def split: prod.splits)

lemma acquiring_append [simp]: "acquiring (xs @ ys) = acquiring xs + acquiring ys"
  by (simp add: acquiring_def)

lemma acquiring_simps [simp]:
  "acquiring [] = 0"
  "acquiring [(p, h)] = (if p = AwaitModule \<and> addModule_ok h then 1 else 0)"
  by (simp_all add: acquiring_def)

lemma past_helper_append [simp]: "past_helper (xs @ ys) \<longleftrightarrow> past_helper xs \<or> past_helper ys"
  by (simp add: past_helper_def list_ex_iff) blast

lemma past_helper_simps [simp]:
  "past_helper [] = False"
  "past_helper [(p, h)] \<longleftrightarrow> p = AwaitEnsure \<or> p = AwaitResume"
  by (simp_all add: past_helper_def)

lemma resume_call_acquiring:
  "getUserMedia_calls (fst (snd (resume_call c s)))
     + acquiring (case snd (snd (resume_call c s)) of None \<Rightarrow> [] | Some c' \<Rightarrow> [c'])
   = getUserMedia_calls s + acquiring [c]"
  by (cases c; cases "fst c"; simp)

lemma resume_call_past_helper:
  "past_helper [c] \<Longrightarrow>
     isRecording (fst (snd (resume_call c s)))
     \<or> past_helper (case snd (snd (resume_call c s)) of None \<Rightarrow> [] | Some c' \<Rightarrow> [c'])"
  by (cases c; cases "fst c"; simp)

lemma settle_acquiring:
  "getUserMedia_calls (fst (settle i st)) + acquiring (snd (settle i st))
     = getUserMedia_calls (fst st) + acquiring (snd st)"
proof (cases "i < length (snd st)")
  case True
  then have split: "snd st = take i (snd st) @ [snd st ! i] @ drop (Suc i) (snd st)"
    by (simp add: id_take_nth_drop)
  have "acquiring (snd st)
      = acquiring (take i (snd st) @ [snd st ! i] @ drop (Suc i) (snd st))"
    using split by (rule arg_cong)
  then have "acquiring (snd st)
      = acquiring (take i (snd st)) + acquiring [snd st ! i] + acquiring (drop (Suc i) (snd st))"
    by (simp only: acquiring_append add.assoc)
  with True resume_call_acquiring [of "snd st ! i" "fst st"] show ?thesis
    by (simp add: fst_settle snd_settle)
next
  case False
  then show ?thesis by (simp add: fst_settle snd_settle)
qed

lemma settle_past_helper:
  assumes "isRecording (fst st) \<or> past_helper (snd st)"
  shows "isRecording (fst (settle i st)) \<or> past_helper (snd (settle i st))"
proof (cases "isRecording (fst st)")
  case True
  then show ?thesis by simp
next
  case idle: False
  with assms have ph: "past_helper (snd st)" by simp
  show ?thesis
  proof (cases "i < length (snd st)")
    case True
    then have split: "snd st = take i (snd st) @ [snd st ! i] @ drop (Suc i) (snd st)"
      by (simp add: id_take_nth_drop)
    have "past_helper (snd st)
        = past_helper (take i (snd st) @ [snd st ! i] @ drop (Suc i) (snd st))"
      using split by (rule arg_cong)
    with ph have "past_helper (take i (snd st)) \<or> past_helper [snd st ! i]
        \<or> past_helper (drop (Suc i) (snd st))"
      by (simp only: past_helper_append)
    with True resume_call_past_helper [of "snd st ! i" "fst st"] show ?thesis
      by (auto simp: fst_settle snd_settle)
  next
    case False
    with ph show ?thesis by (simp add: snd_settle)
  qed
qed

lemma settles_acquiring:
  "getUserMedia_calls (fst (arun (map Settle js) st)) + acquiring (snd (arun (map Settle js) st))
     = getUserMedia_calls (fst st) + acquiring (snd st)"
  by (induction js arbitrary: st) (simp_all add: settle_acquiring)

lemma settles_past_helper:
  "isRecording (fst st) \<or> past_helper (snd st) \<Longrightarrow>
   isRecording (fst (arun (map Settle js) st)) \<or> past_helper (snd (arun (map Settle js) st))"
  by (induction js arbitrary: st) (simp_all add: settle_past_helper)

lemma settles_audioCtx [simp]:
  "audioCtx (fst (arun (map Settle js) st)) = audioCtx (fst st)"
  by (induction js arbitrary: st) simp_all

lemma settles_recording_mono:
  "isRecording (fst st) \<Longrightarrow> isRecording (fst (arun (map Settle js) st))"
  by (induction js arbitrary: st) simp_all

lemma settles_to_recording:
  "a_to_recording (map Settle js) st
     = (if \<not> isRecording (fst st) \<and> isRecording (fst (arun (map Settle js) st)) then 1 else 0)"
proof (induction js arbitrary: st)
  case Nil
  show ?case by simp
next
  case (Cons j js)
  show ?case
    using Cons [of "settle j st"] settles_recording_mono [of "settle j st" js]
    by (auto dest: settle_keeps(2) [of st j])
qed

lemma a_to_recording_append:
  "a_to_recording (es @ fs) st = a_to_recording es st + a_to_recording fs (arun es st)"
  by (induction es arbitrary: st) simp_all

lemma two_calls_in_flight:
  assumes idle: "\<not> isRecording s"
    and fin: "snd (arun (CallStart h1 # map Settle is1 @ CallStart h2 # map Settle is2) (s, [])) = []"
  shows "a_to_recording (CallStart h1 # map Settle is1 @ CallStart h2 # map Settle is2) (s, []) = 1
    \<and> isRecording (fst (arun (CallStart h1 # map Settle is1 @ CallStart h2 # map Settle is2) (s, [])))
    \<and> getUserMedia_calls
          (fst (arun (CallStart h1 # map Settle is1 @ CallStart h2 # map Settle is2) (s, [])))
        = getUserMedia_calls s + (if audioCtx s = None \<and> addModule_ok h1 then 1 else 0)"
proof -
  define st1 where "st1 = start_call h1 (s, [])"
  define st2 where "st2 = arun (map Settle is1) st1"
  define st3 where "st3 = start_call h2 st2"
  define st4 where "st4 = arun (map Settle is2) st3"
  have run: "arun (CallStart h1 # map Settle is1 @ CallStart h2 # map Settle is2) (s, []) = st4"
    by (simp add: arun_append st1_def st2_def st3_def st4_def)
  have empty: "snd st4 = []" using fin run by simp
  have r1: "\<not> isRecording (fst st1)" using idle by (simp add: st1_def)
  have ctx1: "audioCtx (fst st1) \<noteq> None" using idle by (simp add: st1_def start_call_def)
  have q1: "getUserMedia_calls (fst st1) + acquiring (snd st1)
      = getUserMedia_calls s + (if audioCtx s = None \<and> addModule_ok h1 then 1 else 0)"
    using idle by (simp add: st1_def start_call_def)
  have ctx2: "audioCtx (fst st2) \<noteq> None" using ctx1 by (simp add: st2_def)
  have q2: "getUserMedia_calls (fst st2) + acquiring (snd st2)
      = getUserMedia_calls (fst st1) + acquiring (snd st1)"
    unfolding st2_def by (rule settles_acquiring)
  have r3: "isRecording (fst st3) = isRecording (fst st2)" by (simp add: st3_def)
  have q3: "getUserMedia_calls (fst st3) + acquiring (snd st3)
      = getUserMedia_calls (fst st2) + acquiring (snd st2)"
    using ctx2 by (simp add: st3_def start_call_def Let_def)
  have j3: "isRecording (fst st3) \<or> past_helper (snd st3)"
    using ctx2 by (simp add: st3_def start_call_def Let_def)
  have q4: "getUserMedia_calls (fst st4) + acquiring (snd st4)
      = getUserMedia_calls (fst st3) + acquiring (snd st3)"
    unfolding st4_def by (rule settles_acquiring)
  have "isRecording (fst st4) \<or> past_helper (snd st4)"
    unfolding st4_def using j3 by (rule settles_past_helper)
  with empty have r4: "isRecording (fst st4)" by simp
  have calls: "getUserMedia_calls (fst st4)
      = getUserMedia_calls s + (if audioCtx s = None \<and> addModule_ok h1 then 1 else 0)"
    using q1 q2 q3 q4 empty by simp
  have "a_to_recording (CallStart h1 # map Settle is1 @ CallStart h2 # map Settle is2) (s, [])
      = a_to_recording (map Settle is1) st1 + a_to_recording (map Settle is2) st3"
    using idle by (simp add: a_to_recording_append st1_def st2_def st3_def)
  also have "\<dots> = (if isRecording (fst st2) then 1 else 0)
      + (if \<not> isRecording (fst st3) \<and> isRecording (fst st4) then 1 else 0)"
    using r1 by (simp add: settles_to_recording st2_def [symmetric] st4_def [symmetric])
  also have "\<dots> = 1" using r3 r4 by simp
  finally show ?thesis using r4 calls run by simp
qed

text \<open>
  Claim C2. Over every sequence of ticks (calls of \<^verbatim>\<open>start\<close>, \<^verbatim>\<open>stop\<close> and \<^verbatim>\<open>toggle\<close>, calls in
  flight resuming in any order and at any time, render quanta and inbound audio) the
  number of \<^verbatim>\<open>audio_commit\<close> messages emitted equals the number of ticks that take the
  session from Recording to Idle. A \<^verbatim>\<open>stop\<close> emits exactly one commit when the session is
  Recording and none otherwise, every tick emits a commit exactly when it leaves
  Recording, and from the initial state there are never more commits than entries into
  Recording. The same holds over runs in which every call settles at once.
\<close>

theorem commits_match_stop_transitions:
  "commits (emitted (fst (arun ts st))) = commits (emitted (fst st)) + a_to_idle ts st
   \<and> commits (emitted (fst (arun ts (init, [])))) = a_to_idle ts (init, [])
   \<and> a_to_idle ts (init, []) \<le> a_to_recording ts (init, [])
   \<and> commits (emitted (stop s)) = commits (emitted s) + (if isRecording s then 1 else 0)
   \<and> commits (emitted (fst (astep t st))) =
       commits (emitted (fst st))
         + (if isRecording (fst st) \<and> \<not> isRecording (fst (astep t st)) then 1 else 0)
   \<and> commits (emitted (run es s)) = commits (emitted s) + to_idle es s
   \<and> commits (emitted (run es init)) = to_idle es init
   \<and> to_idle es init \<le> to_recording es init"
proof -
  have "commits (emitted (fst (arun ts (init, [])))) = a_to_idle ts (init, [])"
    using arun_commits [of ts "(init, [])"] by (simp add: init_def)
  moreover have "a_to_idle ts (init, []) \<le> a_to_recording ts (init, [])"
    using a_to_idle_le_a_to_recording [of ts "(init, [])"] by (simp add: init_def)
  moreover have "commits (emitted (run es init)) = to_idle es init"
    using run_commits [of es init] by (simp add: init_def)
  moreover have "to_idle es init \<le> to_recording es init"
    using to_idle_le_to_recording [of es init] by (simp add: init_def)
  moreover have "commits (emitted (stop s)) = commits (emitted s) + (if isRecording s then 1 else 0)"
    by (simp add: stop_emitted)
  ultimately show ?thesis
    using arun_commits [of ts st] astep_commits [of t st] run_commits [of es s] by simp
qed

text \<open>Two clicks on the mic button in quick succession: the second \<^verbatim>\<open>toggle\<close> finds
  \<^verbatim>\<open>isRecording\<close> still false and calls \<^verbatim>\<open>start\<close> again. Both calls run to their end, the
  session is Recording and no commit was sent.\<close>

lemma two_quick_clicks:
  "arun [CallToggle \<lparr>addModule_ok = True, getUserMedia_ok = True\<rparr>,
         CallToggle \<lparr>addModule_ok = True, getUserMedia_ok = True\<rparr>,
         Settle 0, Settle 0, Settle 0, Settle 0, Settle 0, Settle 0] (init, [])
     = (init\<lparr>audioCtx := Some 24000, getUserMedia_calls := 1, worklet := True,
              button_active := True, isRecording := True\<rparr>, [])"
  by (simp add: init_def start_call_def settle_def)

lemma run_append: "run (es @ fs) s = run fs (run es s)"
  by (induction es arbitrary: s) simp_all

lemma run_quanta_emitted:
  "worklet s \<Longrightarrow> map process qs = map Some datas \<Longrightarrow>
     emitted (run (map Quantum qs) s) = emitted s @ map AudioChunk datas
     \<and> isRecording (run (map Quantum qs) s) = isRecording s
     \<and> worklet (run (map Quantum qs) s)"
proof (induction qs arbitrary: s datas)
  case Nil
  then show ?case by simp
next
  case (Cons q qs)
  from Cons.prems(2) obtain d ds where datas: "datas = d # ds" and q: "process q = Some d"
    and rest: "map process qs = map Some ds"
    by (cases datas) auto
  have w: "worklet (quantum q s)" using Cons.prems(1) by (simp add: quantum_def onmessage_def q)
  have e: "emitted (quantum q s) = emitted s @ [AudioChunk d]"
    using Cons.prems(1) by (simp add: quantum_def onmessage_def q)
  from Cons.IH [OF w rest] e show ?case by (simp add: datas)
qed

lemma start_fresh:
  "\<not> isRecording s \<Longrightarrow> audioCtx s = None \<Longrightarrow> addModule_ok h \<Longrightarrow> getUserMedia_ok h \<Longrightarrow>
   start h s = (None, s\<lparr>audioCtx := Some 24000, getUserMedia_calls := getUserMedia_calls s + 1,
                          worklet := True, button_active := True, isRecording := True\<rparr>)"
  by (simp add: start_def ensureAudioPipeline_def Let_def)

text \<open>
  Claim C3, as stated, fails: the port handler emits \<^verbatim>\<open>audio_chunk\<close> without looking at
  \<^verbatim>\<open>isRecording\<close>. After \<^verbatim>\<open>start\<close> and \<^verbatim>\<open>stop\<close> the session is Idle, and the next quantum
  is still sent.
\<close>

theorem chunk_sent_while_idle:
  "\<not> isRecording (run [Start \<lparr>addModule_ok = True, getUserMedia_ok = True\<rparr>, Stop] init)
   \<and> emitted (run [Start \<lparr>addModule_ok = True, getUserMedia_ok = True\<rparr>, Stop,
                     Quantum [[[Fin 0]]]] init)
       = [AudioCommit, AudioChunk [0, 0]]"
  by (simp add: init_def start_def ensureAudioPipeline_def stop_def quantum_def onmessage_def
      encode_sample_def)

text \<open>
  Claim C3, amended. Once the worklet node is installed, every quantum for which
  \<^verbatim>\<open>process\<close> posts a buffer emits exactly one \<^verbatim>\<open>audio_chunk\<close> carrying that buffer, whether
  the session is Recording or Idle; a quantum without data, or any quantum before the
  worklet is installed, leaves the state as it is, and initially there is no worklet.
  A successful \<^verbatim>\<open>start\<close> from the initial state, then quanta posting the buffers
  \<open>datas\<close>, then \<^verbatim>\<open>stop\<close> emits one \<^verbatim>\<open>audio_chunk\<close> per buffer, in order, followed by
  exactly one \<^verbatim>\<open>audio_commit\<close>, and ends Idle.
\<close>

theorem audio_chunk_per_quantum:
  "(worklet s \<and> process inputs = Some data \<longrightarrow>
      emitted (quantum inputs s) = emitted s @ [AudioChunk data])
   \<and> (\<not> worklet s \<or> process inputs = None \<longrightarrow> quantum inputs s = s)
   \<and> \<not> worklet init
   \<and> (addModule_ok h \<and> getUserMedia_ok h \<and> map process qs = map Some datas \<longrightarrow>
        emitted (run (Start h # map Quantum qs @ [Stop]) init)
          = map AudioChunk datas @ [AudioCommit]
        \<and> \<not> isRecording (run (Start h # map Quantum qs @ [Stop]) init))"
proof -
  have one: "worklet s \<and> process inputs = Some data \<longrightarrow>
      emitted (quantum inputs s) = emitted s @ [AudioChunk data]"
    by (simp add: quantum_def onmessage_def)
  have none: "\<not> worklet s \<or> process inputs = None \<longrightarrow> quantum inputs s = s"
    by (auto simp: quantum_def)
  have idle: "\<not> worklet init" by (simp add: init_def)
  have scenario: "emitted (run (Start h # map Quantum qs @ [Stop]) init)
          = map AudioChunk datas @ [AudioCommit]
        \<and> \<not> isRecording (run (Start h # map Quantum qs @ [Stop]) init)"
    if h: "addModule_ok h" "getUserMedia_ok h" and qs: "map process qs = map Some datas"
  proof -
    define s1 where "s1 = snd (start h init)"
    have s1: "worklet s1" "isRecording s1" "emitted s1 = []"
      unfolding s1_def using h by (simp_all add: start_fresh init_def)
    from run_quanta_emitted [OF s1(1) qs] s1
    have "emitted (run (map Quantum qs) s1) = map AudioChunk datas"
      and "isRecording (run (map Quantum qs) s1)" by simp_all
    then show ?thesis
      by (simp add: run_append s1_def [symmetric] stop_emitted)
  qed
  from one none idle scenario show ?thesis by blast
qed

theorem audio_chunk_per_quantum_witness:
  "emitted (quantum [[[Fin 0, Fin 0]]]
       (run [Start \<lparr>addModule_ok = True, getUserMedia_ok = True\<rparr>, Stop] init))
     = [AudioCommit, AudioChunk [0, 0, 0, 0]]
   \<and> emitted (run (Start \<lparr>addModule_ok = True, getUserMedia_ok = True\<rparr>
                  # map Quantum (replicate 10 [[[Fin 0, Fin 0]]]) @ [Stop]) init)
     = replicate 10 (AudioChunk [0, 0, 0, 0]) @ [AudioCommit]
   \<and> chunks (replicate 10 (AudioChunk [0, 0, 0, 0]) @ [AudioCommit]) = 10
   \<and> commits (replicate 10 (AudioChunk [0, 0, 0, 0]) @ [AudioCommit]) = 1"
proof -
  define ok where "ok = \<lparr>addModule_ok = True, getUserMedia_ok = True\<rparr>"
  define s where "s = run [Start ok, Stop] init"
  have p: "process [[[Fin 0, Fin 0]]] = Some [0, 0, 0, 0]"
    by (simp add: encode_sample_def Let_def)
  have m: "map process (replicate 10 [[[Fin 0, Fin 0]]]) = map Some (replicate 10 [0, 0, 0, 0])"
    by (simp only: map_replicate p)
  have h: "addModule_ok ok" "getUserMedia_ok ok"
    by (simp_all add: ok_def)
  have s: "worklet s" "emitted s = [AudioCommit]"
    by (simp_all add: s_def ok_def init_def start_def ensureAudioPipeline_def stop_def)
  note inst = audio_chunk_per_quantum [of s "[[[Fin 0, Fin 0]]]" "[0, 0, 0, 0]" ok
      "replicate 10 [[[Fin 0, Fin 0]]]" "replicate 10 [0, 0, 0, 0]"]
  from inst s p have "emitted (quantum [[[Fin 0, Fin 0]]] s) = [AudioCommit, AudioChunk [0, 0, 0, 0]]"
    by simp
  moreover from inst h m
  have "emitted (run (Start ok # map Quantum (replicate 10 [[[Fin 0, Fin 0]]]) @ [Stop]) init)
     = map AudioChunk (replicate 10 [0, 0, 0, 0]) @ [AudioCommit]"
    by blast
  ultimately show ?thesis
    unfolding s_def ok_def by (simp add: chunks_def commits_def)
qed

lemma start_when_recording: "isRecording s \<Longrightarrow> start h s = (None, s)"
  by (simp add: start_def)

lemma stop_when_idle: "\<not> isRecording s \<Longrightarrow> stop s = s"
  by (simp add: stop_def)

lemma start_cases:
  "\<not> isRecording s \<Longrightarrow>
     (audioCtx s \<noteq> None \<and> start h s = (None, s\<lparr>button_active := True, isRecording := True\<rparr>))
   \<or> (audioCtx s = None \<and> \<not> addModule_ok h
        \<and> start h s = (None, s\<lparr>audioCtx := Some 24000, console_calls := console_calls s + 1,
                                 button_active := True, isRecording := True\<rparr>))
   \<or> (audioCtx s = None \<and> addModule_ok h \<and> \<not> getUserMedia_ok h
        \<and> start h s = (Some DeviceUnavailable,
               s\<lparr>audioCtx := Some 24000, getUserMedia_calls := getUserMedia_calls s + 1\<rparr>))
   \<or> (audioCtx s = None \<and> addModule_ok h \<and> getUserMedia_ok h
        \<and> start h s = (None,
               s\<lparr>audioCtx := Some 24000, getUserMedia_calls := getUserMedia_calls s + 1,
                  worklet := True, button_active := True, isRecording := True\<rparr>))"
  by (auto simp: start_def ensureAudioPipeline_def Let_def)

text \<open>Once an audio context exists, \<^verbatim>\<open>_ensureAudioPipeline\<close> returns at once: whether there
  is a worklet is settled for the rest of the session. So a \<^verbatim>\<open>start\<close> that follows a failed
  module load or a failed acquisition reaches Recording without acquiring the device.\<close>

lemma pipeline_fixed_once_context_exists:
  "audioCtx s \<noteq> None \<Longrightarrow> worklet (run es s) = worklet s \<and> audioCtx (run es s) \<noteq> None"
proof (induction es arbitrary: s)
  case Nil
  then show ?case by simp
next
  case (Cons e es)
  have "worklet (step e s) = worklet s \<and> audioCtx (step e s) \<noteq> None"
    using Cons.prems
    by (cases e)
       (auto simp: start_def ensureAudioPipeline_def stop_def toggle_def quantum_def
          onmessage_def on_assistant_audio_def playAssistant_def Let_def
          split: option.splits sum.splits)
  with Cons.IH [of "step e s"] show ?case by simp
qed

lemma two_starts:
  "to_recording [Start h1, Start h2] s = (if isRecording s then 0 else 1)
   \<and> getUserMedia_calls (run [Start h1, Start h2] s)
       = getUserMedia_calls s
           + (if \<not> isRecording s \<and> audioCtx s = None \<and> addModule_ok h1 then 1 else 0)"
proof (cases "isRecording s")
  case True
  then show ?thesis by (simp add: start_when_recording)
next
  case False
  from start_cases [OF False, of h1] show ?thesis
    by (elim disjE conjE) (simp_all add: False start_def ensureAudioPipeline_def)
qed

text \<open>
  Claim C6, as stated, fails. After \<^verbatim>\<open>start\<close> and \<^verbatim>\<open>stop\<close> the session is Idle with its
  audio context in place: two further \<^verbatim>\<open>start\<close> calls make one transition to Recording but no
  device acquisition, whether the second call follows the first or is made while the
  first is still in flight. Nor is the device acquired by two \<^verbatim>\<open>start\<close> calls in a fresh
  session whose module load fails.
\<close>

theorem repeated_start_without_acquisition:
  "to_recording [Start \<lparr>addModule_ok = True, getUserMedia_ok = True\<rparr>,
                 Start \<lparr>addModule_ok = True, getUserMedia_ok = True\<rparr>]
      (run [Start \<lparr>addModule_ok = True, getUserMedia_ok = True\<rparr>, Stop] init) = 1
   \<and> getUserMedia_calls
        (run [Start \<lparr>addModule_ok = True, getUserMedia_ok = True\<rparr>,
              Start \<lparr>addModule_ok = True, getUserMedia_ok = True\<rparr>]
           (run [Start \<lparr>addModule_ok = True, getUserMedia_ok = True\<rparr>, Stop] init))
       = getUserMedia_calls
           (run [Start \<lparr>addModule_ok = True, getUserMedia_ok = True\<rparr>, Stop] init)
   \<and> getUserMedia_calls
        (fst (arun [CallStart \<lparr>addModule_ok = True, getUserMedia_ok = True\<rparr>,
                    CallStart \<lparr>addModule_ok = True, getUserMedia_ok = True\<rparr>,
                    Settle 0, Settle 0, Settle 0, Settle 0]
           (run [Start \<lparr>addModule_ok = True, getUserMedia_ok = True\<rparr>, Stop] init, [])))
       = getUserMedia_calls
           (run [Start \<lparr>addModule_ok = True, getUserMedia_ok = True\<rparr>, Stop] init)
   \<and> getUserMedia_calls
        (run [Start \<lparr>addModule_ok = False, getUserMedia_ok = True\<rparr>,
              Start \<lparr>addModule_ok = True, getUserMedia_ok = True\<rparr>] init) = 0"
  by (simp add: init_def start_def ensureAudioPipeline_def stop_def start_call_def settle_def)

text \<open>
  Claim C6, amended. \<^verbatim>\<open>start\<close> is a no-op in a Recording session and \<^verbatim>\<open>stop\<close> is a no-op in
  an Idle one. In an Idle session two consecutive \<^verbatim>\<open>start\<close> calls make exactly one
  transition to Recording, and in a Recording session none. They make exactly one device
  acquisition when the session is Idle, no audio context exists yet and the module load
  succeeds, and none otherwise: the device is acquired only while the pipeline is first
  built. Both counts are the same when the second call is made while the first is still
  in flight, whatever the order in which the two calls resume, once both have run to
  their end. Two consecutive \<^verbatim>\<open>stop\<close> calls make exactly one transition to Idle, with one
  commit, in a Recording session and none in an Idle one; the second changes nothing.
\<close>

theorem start_stop_idempotent:
  "(isRecording s \<longrightarrow> start h1 s = (None, s) \<and> start_call h1 (s, ps) = (s, ps))
   \<and> (isRecording (snd (start h1 s)) \<longrightarrow>
        start h2 (snd (start h1 s)) = (None, snd (start h1 s)))
   \<and> to_recording [Start h1, Start h2] s = (if isRecording s then 0 else 1)
   \<and> getUserMedia_calls (run [Start h1, Start h2] s)
       = getUserMedia_calls s
           + (if \<not> isRecording s \<and> audioCtx s = None \<and> addModule_ok h1 then 1 else 0)
   \<and> (\<not> isRecording s
        \<and> snd (arun (CallStart h1 # map Settle is1 @ CallStart h2 # map Settle is2) (s, [])) = []
        \<longrightarrow>
        a_to_recording (CallStart h1 # map Settle is1 @ CallStart h2 # map Settle is2) (s, []) = 1
        \<and> getUserMedia_calls
             (fst (arun (CallStart h1 # map Settle is1 @ CallStart h2 # map Settle is2) (s, [])))
            = getUserMedia_calls s + (if audioCtx s = None \<and> addModule_ok h1 then 1 else 0))
   \<and> (\<not> isRecording s \<longrightarrow> stop s = s)
   \<and> stop (stop s) = stop s
   \<and> to_idle [Stop, Stop] s = (if isRecording s then 1 else 0)
   \<and> commits (emitted (run [Stop, Stop] s)) =
       commits (emitted s) + (if isRecording s then 1 else 0)"
proof -
  have a: "isRecording s \<longrightarrow> start h1 s = (None, s) \<and> start_call h1 (s, ps) = (s, ps)"
    by (simp add: start_when_recording start_call_def)
  have b: "isRecording (snd (start h1 s)) \<longrightarrow>
        start h2 (snd (start h1 s)) = (None, snd (start h1 s))"
    by (simp add: start_when_recording)
  have c: "stop (stop s) = stop s"
    by (simp add: stop_when_idle)
  have d: "to_idle [Stop, Stop] s = (if isRecording s then 1 else 0)"
    by simp
  have e: "commits (emitted (run [Stop, Stop] s)) =
       commits (emitted s) + (if isRecording s then 1 else 0)"
    by (simp add: stop_when_idle stop_emitted)
  have f: "\<not> isRecording s \<longrightarrow> stop s = s"
    by (simp add: stop_when_idle)
  from a b c d e f two_starts [of h1 h2 s] two_calls_in_flight [of s h1 is1 h2 is2]
  show ?thesis by blast
qed

theorem start_stop_idempotent_witness:
  "start \<lparr>addModule_ok = True, getUserMedia_ok = True\<rparr>
        (snd (start \<lparr>addModule_ok = True, getUserMedia_ok = True\<rparr> init))
     = (None, snd (start \<lparr>addModule_ok = True, getUserMedia_ok = True\<rparr> init))
   \<and> to_recording [Start \<lparr>addModule_ok = True, getUserMedia_ok = True\<rparr>,
                   Start \<lparr>addModule_ok = True, getUserMedia_ok = True\<rparr>] init = 1
   \<and> getUserMedia_calls (run [Start \<lparr>addModule_ok = True, getUserMedia_ok = True\<rparr>,
                   Start \<lparr>addModule_ok = True, getUserMedia_ok = True\<rparr>] init) = 1
   \<and> snd (arun (CallStart \<lparr>addModule_ok = True, getUserMedia_ok = True\<rparr> # map Settle []
                 @ CallStart \<lparr>addModule_ok = True, getUserMedia_ok = True\<rparr>
                 # map Settle [1, 1, 0, 0, 0, 0]) (init, [])) = []
   \<and> a_to_recording (CallStart \<lparr>addModule_ok = True, getUserMedia_ok = True\<rparr> # map Settle []
                 @ CallStart \<lparr>addModule_ok = True, getUserMedia_ok = True\<rparr>
                 # map Settle [1, 1, 0, 0, 0, 0]) (init, []) = 1
   \<and> getUserMedia_calls
        (fst (arun (CallStart \<lparr>addModule_ok = True, getUserMedia_ok = True\<rparr> # map Settle []
                 @ CallStart \<lparr>addModule_ok = True, getUserMedia_ok = True\<rparr>
                 # map Settle [1, 1, 0, 0, 0, 0]) (init, []))) = 1
   \<and> stop init = init"
proof -
  define ok where "ok = \<lparr>addModule_ok = True, getUserMedia_ok = True\<rparr>"
  have h: "addModule_ok ok" "getUserMedia_ok ok" by (simp_all add: ok_def)
  have i: "\<not> isRecording init" "audioCtx init = None" "getUserMedia_calls init = 0"
    by (simp_all add: init_def)
  have r1: "isRecording (snd (start ok init))"
    by (simp add: start_fresh h i)
  have fin: "snd (arun (CallStart ok # map Settle [] @ CallStart ok
                 # map Settle [1, 1, 0, 0, 0, 0]) (init, [])) = []"
    by (simp add: ok_def init_def start_call_def settle_def)
  note inst = start_stop_idempotent [of init ok "[]" ok "[]" "[1, 1, 0, 0, 0, 0]"]
  from inst r1 have "start ok (snd (start ok init)) = (None, snd (start ok init))"
    by blast
  moreover from inst h i have "to_recording [Start ok, Start ok] init = 1
      \<and> getUserMedia_calls (run [Start ok, Start ok] init) = 1"
    by simp
  moreover from inst i(1) fin
  have "a_to_recording (CallStart ok # map Settle [] @ CallStart ok
                 # map Settle [1, 1, 0, 0, 0, 0]) (init, []) = 1
      \<and> getUserMedia_calls (fst (arun (CallStart ok # map Settle [] @ CallStart ok
                 # map Settle [1, 1, 0, 0, 0, 0]) (init, [])))
          = getUserMedia_calls init + (if audioCtx init = None \<and> addModule_ok ok then 1 else 0)"
    by blast
  moreover from inst i have "stop init = init" by blast
  ultimately show ?thesis using fin h i unfolding ok_def by simp
qed

text \<open>What a \<^verbatim>\<open>start\<close> does when it reaches the device acquisition (the session is Idle,
  there is no audio context yet and the module has loaded) and \<^verbatim>\<open>getUserMedia\<close> rejects:
  it rejects with that error after one acquisition attempt, the session is still Idle and
  the button untouched, but the audio context created before the acquisition stays.\<close>

lemma start_device_unavailable:
  assumes "\<not> isRecording s" and "audioCtx s = None"
    and "addModule_ok h" and "\<not> getUserMedia_ok h"
  shows "start h s = (Some DeviceUnavailable,
      s\<lparr>audioCtx := Some 24000, getUserMedia_calls := getUserMedia_calls s + 1\<rparr>)"
  using assms by (simp add: start_def ensureAudioPipeline_def Let_def)

text \<open>
  Claim C7: the code at the failing input. The first \<^verbatim>\<open>start\<close> of a session in which
  \<^verbatim>\<open>getUserMedia\<close> rejects. The call rejects after one acquisition attempt and the session
  stays Idle with the button inactive, but it is not left as it was: the audio context,
  created before the acquisition, stays assigned. \<^verbatim>\<open>_ensureAudioPipeline\<close> takes the
  context for a finished pipeline, so the retry, with a host that would now grant the
  device, acquires nothing: it sets the session Recording with no worklet, and no later
  event brings one.
\<close>

theorem device_failure_leaves_context:
  "start \<lparr>addModule_ok = True, getUserMedia_ok = False\<rparr> init
     = (Some DeviceUnavailable, init\<lparr>audioCtx := Some 24000, getUserMedia_calls := 1\<rparr>)
   \<and> snd (start \<lparr>addModule_ok = True, getUserMedia_ok = False\<rparr> init) \<noteq> init
   \<and> run [Start \<lparr>addModule_ok = True, getUserMedia_ok = False\<rparr>,
           Start \<lparr>addModule_ok = True, getUserMedia_ok = True\<rparr>] init
       = init\<lparr>audioCtx := Some 24000, getUserMedia_calls := 1,
               button_active := True, isRecording := True\<rparr>
   \<and> \<not> worklet (run es (snd (start \<lparr>addModule_ok = True, getUserMedia_ok = False\<rparr> init)))"
proof -
  define bad where "bad = \<lparr>addModule_ok = True, getUserMedia_ok = False\<rparr>"
  have i: "\<not> isRecording init" "audioCtx init = None" "getUserMedia_calls init = 0"
    "\<not> worklet init"
    by (simp_all add: init_def)
  have h: "addModule_ok bad" "\<not> getUserMedia_ok bad" by (simp_all add: bad_def)
  have s1: "start bad init
      = (Some DeviceUnavailable, init\<lparr>audioCtx := Some 24000, getUserMedia_calls := 1\<rparr>)"
    using start_device_unavailable [OF i(1) i(2) h] i(3) by simp
  have changed: "snd (start bad init) \<noteq> init"
  proof
    assume "snd (start bad init) = init"
    then have "audioCtx (snd (start bad init)) = audioCtx init" by simp
    with s1 i(2) show False by simp
  qed
  have retry: "run [Start bad, Start \<lparr>addModule_ok = True, getUserMedia_ok = True\<rparr>] init
       = init\<lparr>audioCtx := Some 24000, getUserMedia_calls := 1,
               button_active := True, isRecording := True\<rparr>"
    by (simp add: bad_def start_def ensureAudioPipeline_def init_def)
  have ctx: "audioCtx (snd (start bad init)) \<noteq> None" by (simp add: s1)
  have "worklet (run es (snd (start bad init))) = worklet (snd (start bad init))"
    using pipeline_fixed_once_context_exists [OF ctx, of es] by simp
  then have never: "\<not> worklet (run es (snd (start bad init)))"
    using i(4) by (simp add: s1)
  from s1 changed retry never show ?thesis unfolding bad_def by simp
qed

text \<open>
  Claim C8: the code at the failing input. The first \<^verbatim>\<open>start\<close> of a session in which
  \<^verbatim>\<open>addModule\<close> rejects: \<^verbatim>\<open>_ensureAudioPipeline\<close> logs the error and returns normally, and
  \<^verbatim>\<open>start\<close> goes on to mark the button active and set the session Recording, with no
  worklet and no device acquired. The audio context now exists, so no later \<^verbatim>\<open>start\<close>
  builds the pipeline.
\<close>

theorem start_after_module_failure:
  "start \<lparr>addModule_ok = False, getUserMedia_ok = True\<rparr> init
     = (None, init\<lparr>audioCtx := Some 24000, console_calls := 1,
                    button_active := True, isRecording := True\<rparr>)
   \<and> \<not> worklet (snd (start \<lparr>addModule_ok = False, getUserMedia_ok = True\<rparr> init))
   \<and> getUserMedia_calls (snd (start \<lparr>addModule_ok = False, getUserMedia_ok = True\<rparr> init)) = 0"
  by (simp add: start_def ensureAudioPipeline_def init_def)

section \<open>Properties of the playback path\<close>

lemma atob_example: "atob ''AQD/fw=='' = Some [1, 0, 255, 127]"
  by (simp add: atob_def strip_padding_def ascii_whitespace_def b64_index_def)

lemma atob_not_base64: "atob ''not-base64!!'' = None"
  by (simp add: atob_def strip_padding_def ascii_whitespace_def b64_index_def)

lemma b64ToPCM_example:
  "b64ToPCM ''AQD/fw=='' = Inr \<lparr>float32 = [decode_sample 1, decode_sample 32767], sampleRate = 24000\<rparr>"
  by (simp add: b64ToPCM_def atob_example)

lemma b64ToPCM_not_base64: "b64ToPCM ''not-base64!!'' = Inl InvalidCharacterError"
  by (simp add: b64ToPCM_def atob_not_base64)

lemma b64ToPCM_sampleRate: "b64ToPCM a = Inr c \<Longrightarrow> sampleRate c = 24000"
  by (auto simp: b64ToPCM_def split: option.splits)

lemma playAssistant_started:
  "float32 c \<noteq> [] \<Longrightarrow> sampleRate c \<noteq> 0 \<Longrightarrow>
   fst (playAssistant now c s) = None
   \<and> started (snd (playAssistant now c s))
       = started s @ [(now, of_nat (length (float32 c)) / of_nat (sampleRate c))]"
  by (simp add: playAssistant_def Let_def)

text \<open>
  Claim C1, as stated, fails: \<^verbatim>\<open>_playAssistant\<close> keeps no cursor. A chunk of 200 ms (4800
  frames at 24 kHz) handled at device time 0 and a chunk of 300 ms handled immediately
  after it, still at time 0, both start at time 0: the second starts 200 ms before the
  first has ended.
\<close>

theorem second_chunk_starts_at_once:
  "started (snd (playAssistant 0 \<lparr>float32 = replicate 7200 (Fin 0), sampleRate = 24000\<rparr>
              (snd (playAssistant 0 \<lparr>float32 = replicate 4800 (Fin 0), sampleRate = 24000\<rparr>
                      init))))
     = [(0, 1 / 5), (0, 3 / 10)]"
  by (simp add: playAssistant_def init_def)

text \<open>
  Claim C1, amended. The playback path keeps no timeline cursor: every chunk that has
  at least one frame is started at the device time at which it is handled, with the
  duration \<open>frameCount / sampleRate\<close>. So over any sequence of decodable, non-empty
  \<^verbatim>\<open>assistant_audio\<close> messages the start times are the handling times, in arrival order: no
  chunk starts in the past, and nothing keeps a chunk from overlapping its predecessor.
\<close>

theorem playAssistant_starts_now:
  "(float32 c \<noteq> [] \<and> sampleRate c \<noteq> 0 \<longrightarrow>
      fst (playAssistant now c s) = None
      \<and> started (snd (playAssistant now c s))
          = started s @ [(now, of_nat (length (float32 c)) / of_nat (sampleRate c))])
   \<and> ((\<forall>(t, a) \<in> set tas. \<exists>c. b64ToPCM a = Inr c \<and> float32 c \<noteq> []) \<longrightarrow>
        map fst (started (run (map (\<lambda>(t, a). AssistantAudio t a) tas) s))
          = map fst (started s) @ map fst tas)"
proof -
  have seq: "map fst (started (run (map (\<lambda>(t, a). AssistantAudio t a) tas) s))
          = map fst (started s) @ map fst tas"
    if "\<forall>(t, a) \<in> set tas. \<exists>c. b64ToPCM a = Inr c \<and> float32 c \<noteq> []"
    using that
  proof (induction tas arbitrary: s)
    case Nil
    show ?case by simp
  next
    case (Cons ta tas)
    obtain t a where ta: "ta = (t, a)" by (cases ta)
    from Cons.prems ta obtain c where c: "b64ToPCM a = Inr c" "float32 c \<noteq> []" by auto
    have rate: "sampleRate c \<noteq> 0" using b64ToPCM_sampleRate [OF c(1)] by simp
    have "started (step (AssistantAudio t a) s)
        = started s @ [(t, of_nat (length (float32 c)) / of_nat (sampleRate c))]"
      using playAssistant_started [OF c(2) rate, of t s] by (simp add: on_assistant_audio_def c(1))
    moreover have "\<forall>(t, a) \<in> set tas. \<exists>c. b64ToPCM a = Inr c \<and> float32 c \<noteq> []"
      using Cons.prems by simp
    ultimately show ?case using Cons.IH [of "step (AssistantAudio t a) s"] by (simp add: ta)
  qed
  with playAssistant_started [of c now s] show ?thesis by blast
qed

theorem playAssistant_starts_now_witness:
  "fst (playAssistant 3 \<lparr>float32 = replicate 4800 (Fin 0), sampleRate = 24000\<rparr> init) = None
   \<and> started (snd (playAssistant 3 \<lparr>float32 = replicate 4800 (Fin 0), sampleRate = 24000\<rparr> init))
       = [(3, 1 / 5)]
   \<and> map fst (started (run [AssistantAudio 0 ''AQD/fw=='', AssistantAudio 0 ''AQD/fw==''] init))
       = [0, 0]"
proof -
  have pre: "\<forall>(t, a) \<in> set [(0 :: rat, ''AQD/fw==''), (0, ''AQD/fw=='')].
     \<exists>c. b64ToPCM a = Inr c \<and> float32 c \<noteq> []"
    by (simp add: b64ToPCM_example)
  note inst = playAssistant_starts_now [of "\<lparr>float32 = replicate 4800 (Fin 0), sampleRate = 24000\<rparr>"
      3 init "[(0, ''AQD/fw==''), (0, ''AQD/fw=='')]"]
  from inst have "fst (playAssistant 3 \<lparr>float32 = replicate 4800 (Fin 0), sampleRate = 24000\<rparr> init) = None
   \<and> started (snd (playAssistant 3 \<lparr>float32 = replicate 4800 (Fin 0), sampleRate = 24000\<rparr> init))
       = started init @ [(3, of_nat (length (replicate 4800 (Fin 0))) / of_nat 24000)]"
    by simp
  moreover from inst pre
  have "map fst (started (run (map (\<lambda>(t, a). AssistantAudio t a)
            [(0, ''AQD/fw==''), (0, ''AQD/fw=='')]) init))
          = map fst (started init) @ map fst [(0 :: rat, ''AQD/fw==''), (0, ''AQD/fw=='')]"
    by blast
  ultimately show ?thesis by (simp add: init_def)
qed

text \<open>
  Claim C5, as stated, fails in one respect: nothing is logged. \<^verbatim>\<open>b64ToPCM\<close> has no
  \<^verbatim>\<open>try\<close>; on \<^verbatim>\<open>not-base64!!\<close> the exception of \<^verbatim>\<open>atob\<close> leaves the handler, and the controller
  has made no console call.
\<close>

theorem malformed_payload_not_logged:
  "fst (on_assistant_audio 0 ''not-base64!!'' init) = Some InvalidCharacterError
   \<and> console_calls (snd (on_assistant_audio 0 ''not-base64!!'' init)) = console_calls init"
  by (simp add: on_assistant_audio_def b64ToPCM_not_base64)

text \<open>
  Claim C5, amended. A payload is undecodable when \<^verbatim>\<open>atob\<close> rejects it or when it decodes
  to an odd number of bytes. For every such message the handler throws before
  \<^verbatim>\<open>_playAssistant\<close> is reached: the controller state is left exactly as it was (no chunk is
  started, no audio context is created, nothing is logged) and the events that follow are
  handled as if the message had not arrived.
\<close>

theorem malformed_payload_dropped:
  "(b64ToPCM audio = Inl e \<longrightarrow>
      on_assistant_audio now audio s = (Some e, s)
      \<and> run (AssistantAudio now audio # es) s = run es s)
   \<and> ((\<exists>e. b64ToPCM audio = Inl e) \<longleftrightarrow>
        atob audio = None \<or> (\<exists>bytes. atob audio = Some bytes \<and> odd (length bytes)))"
proof -
  have view: "int16_view bs = None \<longleftrightarrow> odd (length bs)" for bs
    by (induction bs rule: int16_view.induct) (auto split: option.splits)
  have "(\<exists>e. b64ToPCM audio = Inl e) \<longleftrightarrow>
        atob audio = None \<or> (\<exists>bytes. atob audio = Some bytes \<and> odd (length bytes))"
  proof (cases "atob audio")
    case None
    then show ?thesis by (simp add: b64ToPCM_def)
  next
    case (Some bytes)
    show ?thesis
    proof (cases "int16_view bytes")
      case None
      with Some view [of bytes] show ?thesis by (simp add: b64ToPCM_def)
    next
      case (Some ws)
      with \<open>atob audio = Some bytes\<close> view [of bytes] show ?thesis
        by (simp add: b64ToPCM_def)
    qed
  qed
  then show ?thesis by (simp add: on_assistant_audio_def)
qed

theorem malformed_payload_dropped_witness:
  "b64ToPCM ''not-base64!!'' = Inl InvalidCharacterError
   \<and> on_assistant_audio 0 ''not-base64!!'' init = (Some InvalidCharacterError, init)
   \<and> started (run [AssistantAudio 0 ''not-base64!!'', AssistantAudio 1 ''AQD/fw==''] init)
       = [(1, 1 / 12000)]"
proof -
  from malformed_payload_dropped [of "''not-base64!!''" InvalidCharacterError 0 init
      "[AssistantAudio 1 ''AQD/fw=='']"] b64ToPCM_not_base64
  have "on_assistant_audio 0 ''not-base64!!'' init = (Some InvalidCharacterError, init)"
    and "run [AssistantAudio 0 ''not-base64!!'', AssistantAudio 1 ''AQD/fw==''] init
          = run [AssistantAudio 1 ''AQD/fw==''] init"
    by blast+
  moreover have "started (run [AssistantAudio 1 ''AQD/fw==''] init) = [(1, 1 / 12000)]"
    by (simp add: on_assistant_audio_def b64ToPCM_example playAssistant_def init_def)
  ultimately show ?thesis using b64ToPCM_not_base64 by simp
qed

section \<open>Decoding followed by encoding\<close>

lemma round_ties_even_near: "\<bar>of_int (round_ties_even y) - y\<bar> \<le> 1 / 2"
proof -
  define f where "f = \<lfloor>y\<rfloor>"
  define d where "d = y - of_int f"
  have d: "0 \<le> d" "d < 1" unfolding d_def f_def by linarith+
  have y: "y = of_int f + d" by (simp add: d_def)
  have r: "round_ties_even y =
      (if d < 1 / 2 then f else if 1 / 2 < d then f + 1 else if even f then f else f + 1)"
    by (simp add: round_ties_even_def Let_def f_def d_def)
  have "\<bar>of_int (round_ties_even y) - (of_int f + d)\<bar> \<le> 1 / 2"
    unfolding r using d by (auto simp: abs_if)
  then show ?thesis by (simp only: y [symmetric])
qed

lemma ilog2_le_0:
  assumes "0 < z" "z < 2"
  shows "ilog2 z \<le> 0"
proof (cases "1 \<le> z")
  case True
  with assms have "\<lfloor>z\<rfloor> = 1" by (simp add: floor_unique)
  then have "bitlen \<lfloor>z\<rfloor> = 1" by (simp add: bitlen_alt_def)
  with True show ?thesis by (simp add: ilog2_def)
next
  case False
  then show ?thesis using bitlen_nonneg [of "\<lceil>1 / z\<rceil> - 1"] by (simp add: ilog2_def)
qed

lemma fround_near:
  assumes "\<bar>x\<bar> < 2" and "0 < p"
  shows "\<bar>fround p x - x\<bar> \<le> 2 powi (- int p)"
proof (cases "x = 0")
  case True
  then show ?thesis by (simp add: fround_def)
next
  case False
  define e where "e = ilog2 \<bar>x\<bar> - (int p - 1)"
  define y where "y = x / 2 powi e"
  have pos: "(0 :: rat) < 2 powi e" by (simp add: zero_less_power_int)
  have x: "x = y * 2 powi e" using pos by (simp add: y_def)
  have fr: "fround p x = of_int (round_ties_even y) * 2 powi e"
    using False by (simp add: fround_def Let_def e_def y_def)
  have "fround p x - x = of_int (round_ties_even y) * 2 powi e - y * 2 powi e"
    by (simp only: fr x [symmetric])
  then have "fround p x - x = (of_int (round_ties_even y) - y) * 2 powi e"
    by (simp add: algebra_simps)
  then have "\<bar>fround p x - x\<bar> = \<bar>of_int (round_ties_even y) - y\<bar> * 2 powi e"
    using pos by (simp add: abs_mult)
  also have "\<dots> \<le> 1 / 2 * 2 powi e"
    using round_ties_even_near [of y] pos by (intro mult_right_mono) simp_all
  also have "\<dots> = 2 powi (e - 1)"
    by (simp add: power_int_diff)
  also have "\<dots> \<le> 2 powi (- int p)"
  proof (rule power_int_increasing)
    have "ilog2 \<bar>x\<bar> \<le> 0" using assms False by (intro ilog2_le_0) simp_all
    then show "e - 1 \<le> - int p" by (simp add: e_def)
  qed simp
  finally show ?thesis .
qed

lemma decode_sample_near:
  assumes "\<bar>v\<bar> \<le> 32768"
  shows "\<bar>fround 24 (fround 53 (of_int v / 32767)) - of_int v / 32767\<bar> < 1 / 8388608"
proof -
  define x :: rat where "x = of_int v / 32767"
  define d where "d = fround 53 x"
  have "\<bar>(of_int v :: rat)\<bar> \<le> 32768" using assms by linarith
  then have x2: "\<bar>x\<bar> \<le> 32768 / 32767" by (simp add: x_def)
  then have "\<bar>x\<bar> < 2" by simp
  from fround_near [OF this, of 53] have dx: "\<bar>d - x\<bar> \<le> 1 / 9007199254740992"
    by (simp add: d_def)
  with x2 have "\<bar>d\<bar> < 2" by linarith
  from fround_near [OF this, of 24] have "\<bar>fround 24 d - d\<bar> \<le> 1 / 16777216"
    by simp
  with dx have "\<bar>fround 24 d - x\<bar> < 1 / 8388608" by linarith
  then show ?thesis by (simp add: d_def x_def)
qed

lemma sint_int16_range: "- 32768 \<le> sint (v :: int16) \<and> sint v \<le> 32767"
  using sint_ge [of v] sint_lt [of v] by simp

lemma encode_near_integer:
  assumes c: "\<bar>c - of_int n\<bar> < 1 / 256"
  shows "\<bar>js_trunc c\<bar> \<le> \<bar>n\<bar> \<and> \<bar>n - js_trunc c\<bar> \<le> 1"
proof -
  define w where "w = js_trunc c"
  have a: "\<bar>(of_int w :: rat)\<bar> \<le> \<bar>c\<bar>" and b: "\<bar>c - of_int w\<bar> < 1"
    unfolding w_def by (rule js_trunc_abs, rule js_trunc_near)
  have "\<bar>(of_int w :: rat)\<bar> < \<bar>of_int n\<bar> + 1" using a c by linarith
  then have "(of_int \<bar>w\<bar> :: rat) < of_int (\<bar>n\<bar> + 1)" by simp
  then have 1: "\<bar>w\<bar> < \<bar>n\<bar> + 1" by (simp only: of_int_less_iff)
  have "\<bar>(of_int n :: rat) - of_int w\<bar> < 2" using b c by linarith
  then have "(of_int \<bar>n - w\<bar> :: rat) < of_int 2" by simp
  then have 2: "\<bar>n - w\<bar> < 2" by (simp only: of_int_less_iff)
  from 1 2 show ?thesis unfolding w_def by linarith
qed

text \<open>
  Claim C9, as stated, fails on the code: the decoded value is stored in a
  \<^verbatim>\<open>Float32Array\<close>. \<open>1 / 32767\<close> is not a float32; the nearest one is \<open>32769 / 2^30\<close>, which
  is smaller, so the encoder's product is \<open>1 - 2^-30\<close> and truncates to 0.
\<close>

theorem round_trip_of_one:
  "decode_sample 1 = Fin (32769 / 1073741824)
   \<and> (32769 / 1073741824 :: rat) * 32767 < 1
   \<and> sint (encode_sample (decode_sample 1)) = 0"
proof -
  have d: "decode_sample 1 = Fin (32769 / 1073741824)" by code_simp
  have e: "sint (encode_sample (Fin (32769 / 1073741824))) = 0" by code_simp
  from d e show ?thesis by simp
qed

text \<open>
  Claim C9, amended. For every int16 sample \<open>v\<close> with \<open>-32767 \<le> v \<le> 32767\<close>, decoding
  (division by 32767, rounded to double and then to float32) followed by encoding returns
  \<open>v\<close> or the neighbour of \<open>v\<close> toward zero: the result is at most 1 away from \<open>v\<close> and never
  larger in magnitude. On the exact quotient \<open>v / 32767\<close> the encoder returns \<open>v\<close> itself.
  For \<open>v = -32768\<close> the decoded float is \<open>-32769 / 32768\<close>, which is less than \<open>-1\<close>.
\<close>

theorem decode_encode_round_trip:
  "(- 32767 \<le> sint v \<and> sint v \<le> 32767 \<longrightarrow>
      \<bar>sint (encode_sample (decode_sample v))\<bar> \<le> \<bar>sint v\<bar>
      \<and> \<bar>sint v - sint (encode_sample (decode_sample v))\<bar> \<le> 1)
   \<and> sint (encode_sample (Fin (of_int (sint v) / 32767))) = sint v
   \<and> decode_sample (- 32768) = Fin (- (32769 / 32768))
   \<and> - (32769 / 32768) < (- 1 :: rat)"
proof -
  define n where "n = sint v"
  have range: "- 32768 \<le> n" "n \<le> 32767"
    using sint_int16_range [of v] by (simp_all add: n_def)
  have near: "\<bar>sint (encode_sample (decode_sample v))\<bar> \<le> \<bar>n\<bar>
      \<and> \<bar>n - sint (encode_sample (decode_sample v))\<bar> \<le> 1"
    if lo: "- 32767 \<le> n"
  proof -
    define f where "f = fround 24 (fround 53 (of_int n / 32767))"
    define c where "c = max (- 32768) (min 32767 (f * 32767))"
    have "\<bar>n\<bar> \<le> 32768" using range by linarith
    from decode_sample_near [OF this] have "\<bar>f - of_int n / 32767\<bar> < 1 / 8388608"
      by (simp add: f_def)
    then have "\<bar>f - of_int n / 32767\<bar> * 32767 < 1 / 8388608 * 32767"
      by simp
    then have "\<bar>f * 32767 - of_int n\<bar> < 32767 / 8388608"
      by (simp add: abs_if algebra_simps split: if_splits)
    then have s: "\<bar>f * 32767 - of_int n\<bar> < 1 / 256" by linarith
    have "(of_int n :: rat) \<le> 32767" "- 32767 \<le> (of_int n :: rat)"
      using range lo by linarith+
    with s have "\<bar>c - of_int n\<bar> < 1 / 256"
      unfolding c_def by (auto simp: max_def min_def abs_if split: if_splits)
    from encode_near_integer [OF this]
    show ?thesis by (simp add: decode_sample_def n_def f_def c_def sint_encode_sample_Fin)
  qed
  have exact: "sint (encode_sample (Fin (of_int n / 32767))) = n"
  proof -
    have "(of_int n :: rat) \<le> 32767" "- 32768 \<le> (of_int n :: rat)"
      using range by linarith+
    then show ?thesis by (simp add: sint_encode_sample_Fin max_def min_def)
  qed
  have low: "decode_sample (- 32768) = Fin (- (32769 / 32768))" by code_simp
  from near exact low show ?thesis by (simp add: n_def)
qed

theorem decode_encode_round_trip_witness:
  "- 32767 \<le> sint (3 :: int16) \<and> sint (3 :: int16) \<le> 32767
   \<and> \<bar>sint (encode_sample (decode_sample 3))\<bar> \<le> 3
   \<and> \<bar>3 - sint (encode_sample (decode_sample 3))\<bar> \<le> 1
   \<and> sint (encode_sample (Fin (3 / 32767))) = 3"
  using decode_encode_round_trip [of 3] by simp

end
